theory Spec2Isabelle
  imports Main
begin

section \<open>Tagged counts\<close>

text \<open>
  The Go struct \<open>count\<close> with its two fields. The nodes pass pointers to freshly
  allocated structs that nobody mutates, so a value of the record stands for the
  pointer. Go's \<open>int\<close> is 64 bits wide; every number stored here is the length of
  a slice, so it never wraps and \<open>int\<close> is exact.
\<close>

record count =
  tag :: string
  count :: int

section \<open>The word counter's expression\<close>

text \<open>
  A Go string is a sequence of bytes, here a list of 8-bit \<open>char\<close>s.
  \<open>strings.Split(s, sep)\<close> is Go's \<open>genSplit(s, sep, 0, -1)\<close>, given here for
  the one-byte separator that the program passes: \<open>n\<close> is
  \<open>Count(s, sep) + 1\<close>, capped by \<open>len(s) + 1\<close>; the loop runs while
  \<open>i < n - 1\<close>, cuts the text at \<open>Index(s, sep)\<close> and stops early when the
  separator is not found; the rest of the text is the last element.
\<close>

fun IndexByte :: "string \<Rightarrow> char \<Rightarrow> nat option" where
  "IndexByte [] c = None"
| "IndexByte (x # xs) c =
     (if x = c then Some 0 else map_option Suc (IndexByte xs c))"

definition Count :: "string \<Rightarrow> char \<Rightarrow> nat" where
  "Count s c = count_list s c"

fun genSplit_loop :: "nat \<Rightarrow> string \<Rightarrow> char \<Rightarrow> string list" where
  "genSplit_loop 0 s sep = [s]"
| "genSplit_loop (Suc k) s sep =
     (case IndexByte s sep of
        None \<Rightarrow> [s]
      | Some m \<Rightarrow> take m s # genSplit_loop k (drop (m + 1) s) sep)"

definition Split :: "string \<Rightarrow> char \<Rightarrow> string list" where
  "Split s sep =
     (let n = Count s sep + 1;
          n = (if n > length s + 1 then length s + 1 else n)
      in genSplit_loop (n - 1) s sep)"

text \<open>The value that \<open>wordCounter.Process\<close> sends for one sentence.\<close>

definition wordCounter_emit :: "string \<Rightarrow> count" where
  "wordCounter_emit sentence =
     \<lparr>tag = ''Words'', count = int (length (Split sentence (CHR '' '')))\<rparr>"

text \<open>
  The specification's reading of the word count: the text is cut at every
  delimiter, and two delimiters in a row enclose an empty token.
\<close>

fun tokens :: "char \<Rightarrow> string \<Rightarrow> string list" where
  "tokens d [] = [[]]"
| "tokens d (x # xs) =
     (if x = d then [] # tokens d xs
      else (case tokens d xs of [] \<Rightarrow> [[x]] | t # ts \<Rightarrow> (x # t) # ts))"

section \<open>The letter counter's expression\<close>

text \<open>
  Go's regexp package reads its input rune by rune. \<open>DecodeRuneInString\<close>
  follows \<open>unicode/utf8\<close>: the first byte selects the length of the sequence and
  the range accepted for the second byte (the tables \<open>first\<close> and
  \<open>acceptRanges\<close>), every further byte must be a continuation byte, and a byte
  that starts no valid sequence is the rune \<open>RuneError\<close> of width 1. Masking with
  \<open>0x1F\<close>, \<open>0x0F\<close>, \<open>0x07\<close>, \<open>0x3F\<close> is \<open>mod\<close> 32, 16, 8, 64; the shifts are
  multiplications, and the bit fields do not overlap, so \<open>|\<close> is \<open>+\<close>.
\<close>

definition RuneError :: nat where
  "RuneError = 0xFFFD"

definition first_size :: "nat \<Rightarrow> nat" where
  "first_size s0 =
     (if s0 < 0xC2 then 1 else if s0 < 0xE0 then 2 else if s0 < 0xF0 then 3
      else if s0 < 0xF5 then 4 else 1)"

definition accept_lo :: "nat \<Rightarrow> nat" where
  "accept_lo s0 = (if s0 = 0xE0 then 0xA0 else if s0 = 0xF0 then 0x90 else 0x80)"

definition accept_hi :: "nat \<Rightarrow> nat" where
  "accept_hi s0 = (if s0 = 0xED then 0x9F else if s0 = 0xF4 then 0x8F else 0xBF)"

fun DecodeRuneInString :: "string \<Rightarrow> nat \<times> nat" where
  "DecodeRuneInString [] = (RuneError, 0)"
| "DecodeRuneInString (c0 # rest) =
     (let s0 = (of_char c0 :: nat); sz = first_size s0 in
      if s0 < 0x80 then (s0, 1)
      else if sz = 1 then (RuneError, 1)
      else if length rest + 1 < sz then (RuneError, 1)
      else
        let s1 = (of_char (rest ! 0) :: nat) in
        if s1 < accept_lo s0 \<or> accept_hi s0 < s1 then (RuneError, 1)
        else if sz \<le> 2 then ((s0 mod 32) * 64 + s1 mod 64, 2)
        else
          let s2 = (of_char (rest ! 1) :: nat) in
          if s2 < 0x80 \<or> 0xBF < s2 then (RuneError, 1)
          else if sz \<le> 3 then ((s0 mod 16) * 4096 + (s1 mod 64) * 64 + s2 mod 64, 3)
          else
            let s3 = (of_char (rest ! 2) :: nat) in
            if s3 < 0x80 \<or> 0xBF < s3 then (RuneError, 1)
            else ((s0 mod 8) * 262144 + (s1 mod 64) * 4096 + (s2 mod 64) * 64 + s3 mod 64, 4))"

text \<open>
  The only pattern of the program is one character class. A compiled pattern is the
  list of the rune ranges of the class; \<open>letters_pattern\<close> is what
  \<open>regexp.MustCompile("[a-zA-Z]")\<close> returns.
\<close>

datatype Regexp = CharClass "(nat \<times> nat) list"

fun matchRune :: "Regexp \<Rightarrow> nat \<Rightarrow> bool" where
  "matchRune (CharClass rs) r = (\<exists>(lo, hi) \<in> set rs. lo \<le> r \<and> r \<le> hi)"

definition letters_pattern :: Regexp where
  "letters_pattern =
     CharClass [(of_char (CHR ''a''), of_char (CHR ''z'')),
                (of_char (CHR ''A''), of_char (CHR ''Z''))]"

text \<open>
  \<open>re.FindAllString(s, -1)\<close> for a character class: the text is read rune by rune
  from the left, and every rune of the class is one match, the bytes of that rune.
  (Go returns \<open>nil\<close> when nothing matches; its length is 0, as for the empty list.)
\<close>

function FindAllString :: "Regexp \<Rightarrow> string \<Rightarrow> string list" where
  "FindAllString re s =
     (if s = [] then []
      else
        let (r, w) = DecodeRuneInString s in
        if matchRune re r then take w s # FindAllString re (drop w s)
        else FindAllString re (drop w s))"
  by pat_completeness auto
termination
proof (relation "measure (\<lambda>(re, s). length s)")
  show "wf (measure (\<lambda>(re, s). length s))" by simp
next
  fix re :: Regexp and s :: string and x r w
  assume a: "s \<noteq> []" "x = DecodeRuneInString s" "(r, w) = x"
  have "0 < snd (DecodeRuneInString s)"
    using a(1) by (cases s) (simp_all add: Let_def)
  with a have "0 < w" by (metis snd_conv)
  with a(1) show "((re, drop w s), (re, s)) \<in> measure (\<lambda>(re, s). length s)"
    by simp
next
  fix re :: Regexp and s :: string and x r w
  assume a: "s \<noteq> []" "x = DecodeRuneInString s" "(r, w) = x"
  have "0 < snd (DecodeRuneInString s)"
    using a(1) by (cases s) (simp_all add: Let_def)
  with a have "0 < w" by (metis snd_conv)
  with a(1) show "((re, drop w s), (re, s)) \<in> measure (\<lambda>(re, s). length s)"
    by simp
qed

declare FindAllString.simps [simp del]

text \<open>The value that \<open>letterCounter.Process\<close> sends for one sentence.\<close>

definition letterCounter_emit :: "Regexp \<Rightarrow> string \<Rightarrow> count" where
  "letterCounter_emit re sentence =
     \<lparr>tag = ''Letters'', count = int (length (FindAllString re sentence))\<rparr>"

text \<open>
  The specification's class of letters, on runes and on the bytes of a string, and
  the UTF-8 encoding of a rune (Go's \<open>utf8.AppendRune\<close>), which says what the
  bytes of an accented or non-Latin letter are.
\<close>

definition isLetterRune :: "nat \<Rightarrow> bool" where
  "isLetterRune r \<longleftrightarrow> (0x41 \<le> r \<and> r \<le> 0x5A) \<or> (0x61 \<le> r \<and> r \<le> 0x7A)"

definition isLetterByte :: "char \<Rightarrow> bool" where
  "isLetterByte c \<longleftrightarrow> isLetterRune (of_char c)"

definition EncodeRune :: "nat \<Rightarrow> string" where
  "EncodeRune r =
     (if r < 0x80 then [char_of r]
      else if r < 0x800 then [char_of (0xC0 + r div 64), char_of (0x80 + r mod 64)]
      else if (0xD800 \<le> r \<and> r \<le> 0xDFFF) \<or> 0x10FFFF < r then
        [char_of (0xEF :: nat), char_of (0xBF :: nat), char_of (0xBD :: nat)]
      else if r < 0x10000 then
        [char_of (0xE0 + r div 4096), char_of (0x80 + (r div 64) mod 64),
         char_of (0x80 + r mod 64)]
      else
        [char_of (0xF0 + r div 262144), char_of (0x80 + (r div 4096) mod 64),
         char_of (0x80 + (r div 64) mod 64), char_of (0x80 + r mod 64)])"

section \<open>Facts about splitting\<close>

lemma IndexByte_None: "IndexByte s c = None \<longleftrightarrow> c \<notin> set s"
  by (induction s) auto

lemma IndexByte_Some:
  "IndexByte s c = Some m \<Longrightarrow>
     m < length s \<and> s ! m = c \<and> c \<notin> set (take m s) \<and>
     count_list s c = Suc (count_list (drop (m + 1) s) c)"
  by (induction s arbitrary: m) (auto split: if_splits)

lemma tokens_not_Nil: "tokens d s \<noteq> []"
  by (induction s) (auto split: list.splits)

lemma tokens_no_delim: "d \<notin> set s \<Longrightarrow> tokens d s = [s]"
  by (induction s) auto

lemma tokens_first: "d \<notin> set p \<Longrightarrow> tokens d (p @ d # r) = p # tokens d r"
  by (induction p) auto

lemma length_tokens: "length (tokens d s) = count_list s d + 1"
  by (induction s) (auto split: list.splits simp: tokens_not_Nil)

lemma genSplit_loop_tokens:
  "count_list s c \<le> k \<Longrightarrow> genSplit_loop k s c = tokens c s"
proof (induction k arbitrary: s)
  case 0
  then have "c \<notin> set s" by (simp add: count_list_0_iff)
  then show ?case by (simp add: tokens_no_delim)
next
  case (Suc k)
  show ?case
  proof (cases "IndexByte s c")
    case None
    then have "c \<notin> set s" by (simp add: IndexByte_None)
    with None show ?thesis by (simp add: tokens_no_delim)
  next
    case (Some m)
    note f = IndexByte_Some[OF Some]
    from f have "s = take m s @ s ! m # drop (Suc m) s"
      by (intro id_take_nth_drop) simp
    with f have s: "s = take m s @ c # drop (m + 1) s"
      by simp
    from f Suc.prems have "count_list (drop (m + 1) s) c \<le> k" by simp
    then have "genSplit_loop k (drop (m + 1) s) c = tokens c (drop (m + 1) s)"
      by (rule Suc.IH)
    moreover have "tokens c s = take m s # tokens c (drop (m + 1) s)"
      using f tokens_first[of c "take m s" "drop (m + 1) s"] s by simp
    ultimately show ?thesis using Some by simp
  qed
qed

lemma Split_tokens: "Split s c = tokens c s"
proof -
  have "count_list s c \<le> length s" by (rule count_le_length)
  then show ?thesis
    by (simp add: Split_def Count_def Let_def genSplit_loop_tokens)
qed

lemma length_Split: "length (Split s c) = count_list s c + 1"
  by (simp add: Split_tokens length_tokens)

section \<open>Facts about decoding and matching\<close>

lemma first_size_cases:
  "first_size n = 1 \<or> first_size n = 2 \<or> first_size n = 3 \<or> first_size n = 4"
  by (simp add: first_size_def)

lemma accept_lo_ge: "128 \<le> accept_lo n"
  by (simp add: accept_lo_def)

lemma lin_ge: "(m::nat) \<le> x \<Longrightarrow> 128 \<le> m * k \<Longrightarrow> 128 \<le> x * k + y"
proof -
  assume a: "m \<le> x" "128 \<le> m * k"
  have "m * k \<le> x * k" using a(1) by (rule mult_le_mono1)
  with a(2) have "128 \<le> x * k" by (rule order_trans)
  then show ?thesis by (rule trans_le_add1)
qed

lemma mod_window: "k * n \<le> m \<Longrightarrow> m < k * n + n \<Longrightarrow> m mod n = m - k * (n::nat)"
proof -
  assume a: "k * n \<le> m" "m < k * n + n"
  then have "m = (m - k * n) + k * n" by simp
  then have "m mod n = ((m - k * n) + k * n) mod n" by simp
  also have "\<dots> = (m - k * n) mod n" by (rule mod_mult_self1)
  also have "\<dots> = m - k * n" using a by (intro mod_less) simp
  finally show ?thesis .
qed

lemma lead2_mod: "\<not> (a::nat) < 194 \<Longrightarrow> a < 224 \<Longrightarrow> 2 \<le> a mod 32"
  using mod_window[of 6 32 a] by simp

lemma lead3_mod: "(224::nat) < a \<Longrightarrow> a < 240 \<Longrightarrow> 1 \<le> a mod 16"
  using mod_window[of 14 16 a] by simp

lemma lead4_mod: "(240::nat) < a \<Longrightarrow> a < 245 \<Longrightarrow> 1 \<le> a mod 8"
  using mod_window[of 30 8 a] by simp

lemma cont3_mod: "(160::nat) \<le> b \<Longrightarrow> b \<le> 191 \<Longrightarrow> 32 \<le> b mod 64"
  using mod_window[of 2 64 b] by simp

lemma cont4_mod: "(144::nat) \<le> b \<Longrightarrow> b \<le> 191 \<Longrightarrow> 1 \<le> b mod 64"
  using mod_window[of 2 64 b] by simp

lemma rune2_ge:
  assumes "first_size a = 2"
  shows "128 \<le> a mod 32 * 64 + b"
proof -
  from assms have "2 \<le> a mod 32"
    by (intro lead2_mod) (simp_all add: first_size_def split: if_splits)
  then show ?thesis by (rule lin_ge) simp
qed

lemma rune3_ge:
  assumes "first_size a = 3" "\<not> b < accept_lo a" "\<not> accept_hi a < b"
  shows "128 \<le> a mod 16 * 4096 + b mod 64 * 64 + c"
proof (cases "a = 224")
  case True
  with assms have "32 \<le> b mod 64"
    by (intro cont3_mod) (simp_all add: accept_lo_def accept_hi_def)
  then have "128 \<le> b mod 64 * 64 + c" by (rule lin_ge) simp
  then show ?thesis by simp
next
  case False
  with assms have "1 \<le> a mod 16"
    by (intro lead3_mod) (simp_all add: first_size_def split: if_splits)
  then have "128 \<le> a mod 16 * 4096 + (b mod 64 * 64 + c)" by (rule lin_ge) simp
  then show ?thesis by (simp add: add.assoc)
qed

lemma rune4_ge:
  assumes "first_size a = 4" "\<not> b < accept_lo a" "\<not> accept_hi a < b"
  shows "128 \<le> a mod 8 * 262144 + b mod 64 * 4096 + c + d"
proof (cases "a = 240")
  case True
  with assms have "1 \<le> b mod 64"
    by (intro cont4_mod) (simp_all add: accept_lo_def accept_hi_def)
  then have "128 \<le> b mod 64 * 4096 + (c + d)" by (rule lin_ge) simp
  then show ?thesis by simp
next
  case False
  with assms have "1 \<le> a mod 8"
    by (intro lead4_mod) (simp_all add: first_size_def split: if_splits)
  then have "128 \<le> a mod 8 * 262144 + (b mod 64 * 4096 + c + d)" by (rule lin_ge) simp
  then show ?thesis by (simp add: add.assoc)
qed

lemma matchRune_letters: "matchRune letters_pattern r \<longleftrightarrow> isLetterRune r"
  by (auto simp: letters_pattern_def isLetterRune_def)

lemma isLetterByte_high: "128 \<le> (of_char c :: nat) \<Longrightarrow> \<not> isLetterByte c"
  by (simp add: isLetterByte_def isLetterRune_def)

lemma DecodeRuneInString_size: "s \<noteq> [] \<Longrightarrow> 0 < snd (DecodeRuneInString s)"
  by (cases s) (simp_all add: Let_def)

lemma decode_width1:
  "DecodeRuneInString (c0 # rest) = (r, 1) \<Longrightarrow>
     matchRune letters_pattern r \<longleftrightarrow> isLetterByte c0"
  by (auto simp: matchRune_letters isLetterByte_def isLetterRune_def Let_def RuneError_def
      split: if_splits)

lemma decode_wide:
  assumes d: "DecodeRuneInString (c0 # rest) = (r, w)" and w: "w \<noteq> 1"
  shows "128 \<le> r \<and> w \<le> length (c0 # rest) \<and>
         (\<forall>c \<in> set (take w (c0 # rest)). 128 \<le> (of_char c :: nat))"
proof -
  define s0 where "s0 = (of_char c0 :: nat)"
  define sz where "sz = first_size s0"
  from d w have a: "\<not> s0 < 128" "sz \<noteq> 1" "\<not> length rest + 1 < sz"
    by (auto simp: Let_def s0_def sz_def split: if_splits)
  then obtain c1 rest1 where r1: "rest = c1 # rest1"
    using first_size_cases[of s0] by (cases rest) (auto simp: sz_def)
  define s1 where "s1 = (of_char c1 :: nat)"
  from d w a r1 have b: "\<not> s1 < accept_lo s0" "\<not> accept_hi s0 < s1"
    by (auto simp: Let_def s0_def sz_def s1_def split: if_splits)
  have s1: "128 \<le> s1" using b accept_lo_ge[of s0] by simp
  consider "sz = 2" | "sz = 3" | "sz = 4"
    using first_size_cases[of s0] a by (auto simp: sz_def)
  then show ?thesis
  proof cases
    case 1
    with d a b r1 have "r = s0 mod 32 * 64 + s1 mod 64" "w = 2"
      by (simp_all add: Let_def s0_def[symmetric] sz_def[symmetric] s1_def[symmetric])
    with 1 a s1 r1 show ?thesis
      using rune2_ge[of s0 "s1 mod 64"] by (simp add: sz_def s0_def s1_def)
  next
    case 2
    with a r1 obtain c2 rest2 where r2: "rest1 = c2 # rest2"
      by (cases rest1) auto
    define s2 where "s2 = (of_char c2 :: nat)"
    from d w 2 a b r1 r2
    have c: "\<not> s2 < 128" "r = s0 mod 16 * 4096 + s1 mod 64 * 64 + s2 mod 64" "w = 3"
      by (simp_all add: Let_def s0_def[symmetric] sz_def[symmetric] s1_def[symmetric]
          s2_def[symmetric] split: if_splits)
    with 2 a b s1 r1 r2 show ?thesis
      using rune3_ge[of s0 s1 "s2 mod 64"] by (simp add: sz_def s0_def s1_def s2_def)
  next
    case 3
    with a r1 obtain c2 c3 rest3 where r2: "rest1 = c2 # c3 # rest3"
      by (cases rest1; cases "tl rest1") auto
    define s2 where "s2 = (of_char c2 :: nat)"
    define s3 where "s3 = (of_char c3 :: nat)"
    from d w 3 a b r1 r2
    have c: "\<not> s2 < 128" "\<not> s3 < 128"
      "r = s0 mod 8 * 262144 + s1 mod 64 * 4096 + s2 mod 64 * 64 + s3 mod 64" "w = 4"
      by (simp_all add: Let_def s0_def[symmetric] sz_def[symmetric] s1_def[symmetric]
          s2_def[symmetric] s3_def[symmetric] split: if_splits)
    with 3 a b s1 r1 r2 show ?thesis
      using rune4_ge[of s0 s1 "s2 mod 64 * 64" "s3 mod 64"]
      by (simp add: sz_def s0_def s1_def s2_def s3_def)
  qed
qed

lemma FindAllString_Nil: "FindAllString re [] = []"
  by (simp add: FindAllString.simps)

lemma FindAllString_ascii:
  "(of_char c :: nat) < 128 \<Longrightarrow>
     FindAllString re (c # cs) =
       (if matchRune re (of_char c) then [c] # FindAllString re cs
        else FindAllString re cs)"
  by (subst FindAllString.simps) (simp add: Let_def)

lemma length_FindAllString_letters:
  "length (FindAllString letters_pattern s) = length (filter isLetterByte s)"
proof (induction s rule: length_induct)
  case (1 s)
  show ?case
  proof (cases s)
    case Nil
    then show ?thesis by (simp add: FindAllString_Nil)
  next
    case (Cons c0 rest)
    obtain r w where d: "DecodeRuneInString (c0 # rest) = (r, w)"
      by fastforce
    have w0: "0 < w"
      using DecodeRuneInString_size[of "c0 # rest"] d by simp
    have IH: "length (FindAllString letters_pattern (drop w s)) =
        length (filter isLetterByte (drop w s))"
      using 1 Cons w0 by simp
    have unfold: "FindAllString letters_pattern s =
        (if matchRune letters_pattern r
         then take w s # FindAllString letters_pattern (drop w s)
         else FindAllString letters_pattern (drop w s))"
      using Cons d by (subst FindAllString.simps) simp
    have parts: "filter isLetterByte s =
        filter isLetterByte (take w s) @ filter isLetterByte (drop w s)"
      by (metis append_take_drop_id filter_append)
    show ?thesis
    proof (cases "w = 1")
      case True
      with d have "matchRune letters_pattern r \<longleftrightarrow> isLetterByte c0"
        by (simp add: decode_width1)
      with True Cons IH unfold show ?thesis by simp
    next
      case False
      from decode_wide[OF d False] have r: "128 \<le> r"
        and hi: "\<forall>c \<in> set (take w s). 128 \<le> (of_char c :: nat)"
        using Cons by simp_all
      from r have "\<not> matchRune letters_pattern r"
        by (simp add: matchRune_letters isLetterRune_def)
      moreover from hi have "filter isLetterByte (take w s) = []"
        by (simp add: filter_empty_conv isLetterByte_high)
      ultimately show ?thesis using IH unfold parts by simp
    qed
  qed
qed

lemma count_letterCounter_emit:
  "count (letterCounter_emit letters_pattern s) = int (length (filter isLetterByte s))"
  by (simp add: letterCounter_emit_def length_FindAllString_letters)

lemma byte_high:
  "128 \<le> n \<Longrightarrow> n < 256 \<Longrightarrow> 128 \<le> (of_char (char_of (n::nat)) :: nat)"
  by simp

lemma cont_byte_high: "128 \<le> (of_char (char_of (128 + x mod 64 :: nat)) :: nat)"
proof -
  have "x mod 64 < 64" by simp
  then have "128 + x mod 64 < 256" by linarith
  then show ?thesis by (intro byte_high) simp_all
qed

lemma EncodeRune_high:
  assumes r: "128 \<le> r" and c: "c \<in> set (EncodeRune r)"
  shows "128 \<le> (of_char c :: nat)"
proof -
  consider (two) "r < 0x800"
    | (bad) "\<not> r < 0x800" "(0xD800 \<le> r \<and> r \<le> 0xDFFF) \<or> 0x10FFFF < r"
    | (three) "\<not> r < 0x800" "\<not> ((0xD800 \<le> r \<and> r \<le> 0xDFFF) \<or> 0x10FFFF < r)"
        "r < 0x10000"
    | (four) "\<not> r < 0x800" "\<not> ((0xD800 \<le> r \<and> r \<le> 0xDFFF) \<or> 0x10FFFF < r)"
        "\<not> r < 0x10000"
    by blast
  then show ?thesis
  proof cases
    case two
    then have "r div 64 < 32" by (intro less_mult_imp_div_less) simp
    then have "128 \<le> (of_char (char_of (192 + r div 64)) :: nat)"
      by (intro byte_high) simp_all
    with r c two show ?thesis
      using cont_byte_high[of r] by (auto simp: EncodeRune_def)
  next
    case bad
    with r c show ?thesis by (auto simp: EncodeRune_def)
  next
    case three
    then have "r div 4096 < 16" by (intro less_mult_imp_div_less) simp
    then have "128 \<le> (of_char (char_of (224 + r div 4096)) :: nat)"
      by (intro byte_high) simp_all
    with r c three show ?thesis
      using cont_byte_high[of r] cont_byte_high[of "r div 64"]
      by (auto simp: EncodeRune_def)
  next
    case four
    then have "r div 262144 < 5" by (intro less_mult_imp_div_less) simp
    then have "128 \<le> (of_char (char_of (240 + r div 262144)) :: nat)"
      by (intro byte_high) simp_all
    with r c four show ?thesis
      using cont_byte_high[of r] cont_byte_high[of "r div 64"]
        cont_byte_high[of "r div 4096"]
      by (auto simp: EncodeRune_def)
  qed
qed

lemma filter_EncodeRune:
  assumes "\<not> isLetterRune r"
  shows "filter isLetterByte (EncodeRune r) = []"
proof (cases "r < 128")
  case True
  then have "EncodeRune r = [char_of r]" by (simp add: EncodeRune_def)
  moreover from True have "(of_char (char_of r) :: nat) = r" by simp
  ultimately show ?thesis using assms by (simp add: isLetterByte_def)
next
  case False
  then have "\<forall>c \<in> set (EncodeRune r). \<not> isLetterByte c"
    using EncodeRune_high[of r] isLetterByte_high by auto
  then show ?thesis by (simp add: filter_empty_conv)
qed

section \<open>The counting claims\<close>

text \<open>
  Claim C4. For every input string, the count that the word counter sends is the
  number of tokens obtained by cutting the string at every space, empty tokens
  between two spaces in a row included; that is the number of spaces plus one.
  What Go's \<open>strings.Split\<close> returns is exactly that list of tokens.
\<close>

theorem wordCounter_counts_tokens:
  "Split s (CHR '' '') = tokens (CHR '' '') s \<and>
   count (wordCounter_emit s) = int (length (tokens (CHR '' '') s)) \<and>
   count (wordCounter_emit s) = int (count_list s (CHR '' '')) + 1"
  by (simp add: wordCounter_emit_def Split_tokens length_tokens)

text \<open>
  Claim C5. On the three reference sentences the word counter sends the counts 13,
  17 and 8, each with the tag \<open>Words\<close>. The values are computed from the
  definitions of \<open>Split\<close>.
\<close>

theorem wordCounter_reference_sentences:
  "wordCounter_emit ''I never put off till tomorrow what I can do the day after.''
     = \<lparr>tag = ''Words'', count = 13\<rparr> \<and>
   wordCounter_emit
     ''Fashion is a form of ugliness so intolerable that we have to alter it every six months.''
     = \<lparr>tag = ''Words'', count = 17\<rparr> \<and>
   wordCounter_emit ''Life is too important to be taken seriously.''
     = \<lparr>tag = ''Words'', count = 8\<rparr>"
  by (simp add: wordCounter_emit_def Split_def Count_def)

text \<open>
  Claim C9. The count that the word counter sends is at least 1 for every input
  string; for the empty string it is 1, not 0.
\<close>

theorem wordCounter_count_positive:
  "1 \<le> count (wordCounter_emit s) \<and>
   wordCounter_emit [] = \<lparr>tag = ''Words'', count = 1\<rparr>"
proof
  show "1 \<le> count (wordCounter_emit s)"
    by (simp add: wordCounter_emit_def length_Split)
  show "wordCounter_emit [] = \<lparr>tag = ''Words'', count = 1\<rparr>"
    by (simp add: wordCounter_emit_def Split_def Count_def)
qed

text \<open>
  Claim C10. The letter count is additive over concatenation, and a character
  outside the ASCII letters adds nothing to it: a rune that is not in \<open>[a-zA-Z]\<close>,
  in its UTF-8 encoding, placed anywhere in a string, leaves the count of the rest.
\<close>

theorem letterCount_additive:
  "count (letterCounter_emit letters_pattern (s @ t)) =
     count (letterCounter_emit letters_pattern s) + count (letterCounter_emit letters_pattern t) \<and>
   (\<not> isLetterRune r \<longrightarrow>
      count (letterCounter_emit letters_pattern (EncodeRune r)) = 0 \<and>
      count (letterCounter_emit letters_pattern (s @ EncodeRune r @ t)) =
        count (letterCounter_emit letters_pattern s) + count (letterCounter_emit letters_pattern t))"
  by (simp add: count_letterCounter_emit filter_EncodeRune)

text \<open>
  The letter \<open>e\<close> with an acute accent (U+00E9, the bytes C3 A9) between two ASCII
  letters: the count is 2.
\<close>

theorem letterCount_additive_witness:
  "\<not> isLetterRune 233 \<and>
   count (letterCounter_emit letters_pattern (EncodeRune 233)) = 0 \<and>
   count (letterCounter_emit letters_pattern (''a'' @ EncodeRune 233 @ ''b'')) = 2"
proof -
  have n: "\<not> isLetterRune 233" by (simp add: isLetterRune_def)
  have a: "count (letterCounter_emit letters_pattern ''a'') = 1"
    by (simp add: letterCounter_emit_def FindAllString_Nil FindAllString_ascii letters_pattern_def)
  have b: "count (letterCounter_emit letters_pattern ''b'') = 1"
    by (simp add: letterCounter_emit_def FindAllString_Nil FindAllString_ascii letters_pattern_def)
  from letterCount_additive[of "''a''" "''b''" 233] n a b show ?thesis by simp
qed


end
